theory Spec2Isabelle
  imports Main "HOL-Library.Char_ord" "HOL-Library.List_Lexorder"
begin

section \<open>gormx: a shallow embedding\<close>

text \<open>
  Go strings are byte sequences and are modelled as \<open>string\<close> (\<open>char list\<close>); Go compares
  them bytewise and lexicographically, which is the order \<open>List_Lexorder\<close> puts on lists
  of \<open>Char_ord\<close> characters. A type parameter constrained by \<open>cmp.Ordered\<close> is a HOL type
  of class \<open>linorder\<close> (floating-point keys, whose NaN is outside every total order, are
  not covered).
\<close>

subsection \<open>SQL expressions (gorm.io/gorm/clause)\<close>

text \<open>\<open>clause.Column\<close>: a struct of three strings and a flag.\<close>

record Column =
  Table :: string
  Name :: string
  Alias :: string
  Raw :: bool

text \<open>
  The arguments bound to the \<open>?\<close> placeholders of an expression are of Go type \<open>any\<close>.
  \<open>SortPrep\<close> binds columns, keys, sort values and one slice of keys. \<open>ZeroVal\<close> is the
  zero value of the sort type, which indexing a Go map yields for a missing key.
\<close>

datatype ('k, 's) var = Col Column | Key 'k | Val 's | ZeroVal | Keys "'k list"

text \<open>\<open>clause.Expr\<close>; \<open>gorm.Expr(sql, args...)\<close> builds \<open>clause.Expr{SQL: sql, Vars: args}\<close>.\<close>

record ('k, 's) Expr =
  SQL :: string
  Vars :: "('k, 's) var list"

definition gorm_Expr :: "string \<Rightarrow> ('k, 's) var list \<Rightarrow> ('k, 's) Expr" where
  "gorm_Expr sql args = \<lparr>SQL = sql, Vars = args\<rparr>"

subsection \<open>SortPrep\<close>

text \<open>
  A Go \<open>map[K]S\<close> is modelled as an association list with distinct keys: the pairs of the
  map in the order in which \<open>range\<close> happens to visit them, an order Go leaves unspecified
  and changes from one loop to the next. \<open>values[key]\<close> is \<open>map_index\<close>.
\<close>

definition map_index :: "('k \<times> 's) list \<Rightarrow> 'k \<Rightarrow> ('k, 's) var" where
  "map_index values key = (case map_of values key of Some v \<Rightarrow> Val v | None \<Rightarrow> ZeroVal)"

text \<open>\<open>for key := range values { keys = append(keys, key) }\<close>\<close>

fun collect_keys :: "('k \<times> 's) list \<Rightarrow> 'k list \<Rightarrow> 'k list" where
  "collect_keys [] keys = keys"
| "collect_keys ((key, v) # rest) keys = collect_keys rest (keys @ [key])"

text \<open>
  \<open>for _, key := range keys { caseSql.WriteString(` WHEN ? THEN ?`);
  caseArg = append(caseArg, key, values[key]) }\<close>, on the pair of the buffer and the
  argument slice.
\<close>

fun case_loop ::
  "('k \<times> 's) list \<Rightarrow> 'k list \<Rightarrow> string \<times> ('k, 's) var list \<Rightarrow> string \<times> ('k, 's) var list" where
  "case_loop values [] acc = acc"
| "case_loop values (key # keys) (caseSql, caseArg) =
     case_loop values keys
       (caseSql @ '' WHEN ? THEN ?'', caseArg @ [Key key, map_index values key])"

text \<open>
  \<open>slices.Sort\<close> puts the keys in ascending order; on distinct keys of a total order the
  result is the one sorted permutation, which \<open>sort\<close> computes.
\<close>

definition SortPrep ::
  "('k::linorder \<times> 's) list \<Rightarrow> Column \<Rightarrow> Column \<Rightarrow> ('k, 's) Expr \<times> ('k, 's) Expr" where
  "SortPrep values kc sc =
     (let keys = sort (collect_keys values []);
          (caseSql, caseArg) = case_loop values keys (''(CASE ?'', [Col kc]);
          caseSql = caseSql @ '' ELSE ? END)'';
          caseArg = caseArg @ [Col sc];
          where_expr = gorm_Expr ''? in (?)'' [Col kc, Keys keys];
          value_expr = gorm_Expr caseSql caseArg
      in (where_expr, value_expr))"

text \<open>
  The specification's reading of the two results, for comparison with the code: the WHEN
  branches, one per pair of the mapping, and the template with \<open>n\<close> branches.
\<close>

definition spec_branches :: "('k \<times> 's) list \<Rightarrow> ('k, 's) var list" where
  "spec_branches kvs = concat (map (\<lambda>(k, v). [Key k, Val v]) kvs)"

definition spec_case_sql :: "nat \<Rightarrow> string" where
  "spec_case_sql n = ''(CASE ?'' @ concat (replicate n '' WHEN ? THEN ?'') @ '' ELSE ? END)''"

subsection \<open>Column references (utils.go)\<close>

text \<open>
  Column names are taken to be ASCII, so that a rune is a byte, \<open>strings.ToLower\<close> keeps
  the length of its argument and \<open>unicode.IsSpace\<close> holds of the six ASCII white-space
  characters only.
\<close>

definition unicode_IsSpace :: "char \<Rightarrow> bool" where
  "unicode_IsSpace r =
     (r = CHR 0x09 \<or> r = CHR 0x0A \<or> r = CHR 0x0B \<or> r = CHR 0x0C \<or> r = CHR 0x0D \<or> r = CHR 0x20)"

text \<open>
  \<open>nameClean\<close>: the double quote, the backquote, the single quote, the two square
  brackets, and white space.
\<close>

definition nameClean :: "char \<Rightarrow> bool" where
  "nameClean r =
     (r = CHR 0x22 \<or> r = CHR 0x60 \<or> r = CHR 0x27 \<or> r = CHR 0x5B \<or> r = CHR 0x5D
      \<or> unicode_IsSpace r)"

definition strings_TrimFunc :: "string \<Rightarrow> (char \<Rightarrow> bool) \<Rightarrow> string" where
  "strings_TrimFunc s f = rev (dropWhile f (rev (dropWhile f s)))"

definition lower_char :: "char \<Rightarrow> char" where
  "lower_char c =
     (if CHR ''A'' \<le> c \<and> c \<le> CHR ''Z'' then char_of (of_char c + (32 :: nat)) else c)"

definition strings_ToLower :: "string \<Rightarrow> string" where
  "strings_ToLower s = map lower_char s"

text \<open>The position of the first occurrence of \<open>substr\<close> in \<open>s\<close>, if there is one.\<close>

fun find_substr :: "string \<Rightarrow> string \<Rightarrow> nat option" where
  "find_substr [] substr = (if substr = [] then Some 0 else None)"
| "find_substr (c # s) substr =
     (if take (length substr) (c # s) = substr then Some 0
      else map_option Suc (find_substr s substr))"

text \<open>\<open>strings.Index\<close>: that position, or \<open>-1\<close>.\<close>

definition strings_Index :: "string \<Rightarrow> string \<Rightarrow> int" where
  "strings_Index s substr = (case find_substr s substr of Some i \<Rightarrow> int i | None \<Rightarrow> - 1)"

text \<open>\<open>strings.Cut\<close>: the text before and after the first \<open>sep\<close>, and whether it was found.\<close>

definition strings_Cut :: "string \<Rightarrow> string \<Rightarrow> string \<times> string \<times> bool" where
  "strings_Cut s sep =
     (let i = strings_Index s sep
      in if 0 \<le> i then (take (nat i) s, drop (nat i + length sep) s, True) else (s, [], False))"

text \<open>The placeholders of \<open>gorm.io/gorm/clause\<close> for the current table and the primary key.\<close>

definition clause_CurrentTable :: string where
  "clause_CurrentTable = ''~~~ct~~~''"

definition clause_PrimaryKey :: string where
  "clause_PrimaryKey = ''~~~py~~~''"

definition column :: "string \<Rightarrow> Column" where
  "column c =
     (let col = \<lparr>Table = [], Name = c, Alias = [], Raw = False\<rparr>;
          i = strings_Index (strings_ToLower c) '' as '';
          col = (if 0 < i then col\<lparr>Alias := drop (nat i + 4) c, Name := take (nat i) c\<rparr> else col);
          (t, n, ok) = strings_Cut c ''.'';
          col = (if ok then col\<lparr>Table := t, Name := n\<rparr> else col);
          col = col\<lparr>Name := strings_TrimFunc (Name col) nameClean\<rparr>;
          col = col\<lparr>Table := strings_TrimFunc (Table col) nameClean\<rparr>;
          col = col\<lparr>Alias := strings_TrimFunc (Alias col) nameClean\<rparr>
      in if Table col = [] then col\<lparr>Table := clause_CurrentTable\<rparr> else col)"

subsection \<open>The driver registry and Open (dialect.go)\<close>

text \<open>
  The two package-level maps. A \<open>DialectOpen\<close> is a Go function value, which may be
  \<open>nil\<close> (\<open>None\<close>); \<open>'d\<close> is \<open>gorm.Dialector\<close>.
\<close>

type_synonym 'd DialectOpen = "(string \<Rightarrow> 'd) option"

record 'd registry =
  drivers :: "string \<rightharpoonup> 'd DialectOpen"
  driverAlias :: "string \<rightharpoonup> string"

definition RegisterDriver ::
  "string \<Rightarrow> 'd DialectOpen \<Rightarrow> string list \<Rightarrow> 'd registry \<Rightarrow> 'd registry" where
  "RegisterDriver name dialect alias reg =
     reg\<lparr>drivers := (drivers reg)(name \<mapsto> dialect),
         driverAlias := fold (\<lambda>a m. m(a \<mapsto> name)) alias (driverAlias reg)\<rparr>"

text \<open>
  \<open>Open\<close> returns the pair \<open>(nil, fmt.Errorf("unknown driver: %s", driver))\<close>, or what
  \<open>gorm.Open\<close> returns for the dialector, or panics on calling a \<open>nil\<close> function.
  \<open>gorm.Open\<close> is the library's and is a parameter.
\<close>

datatype 'r open_result = Errorf string | Nil_func_panic | Opened 'r

text \<open>\<open>v, ok := m[k]\<close> on a map of functions: the zero value is \<open>nil\<close>.\<close>

definition comma_ok :: "(string \<rightharpoonup> 'd DialectOpen) \<Rightarrow> string \<Rightarrow> 'd DialectOpen \<times> bool" where
  "comma_ok m k = (case m k of Some f \<Rightarrow> (f, True) | None \<Rightarrow> (None, False))"

definition Open ::
  "'d registry \<Rightarrow> ('d \<Rightarrow> 'o \<Rightarrow> 'r) \<Rightarrow> string \<Rightarrow> string \<Rightarrow> 'o \<Rightarrow> 'r open_result" where
  "Open reg gorm_Open driver dsn opts =
     (let name = driver;
          (dialect, ok) = comma_ok (drivers reg) name;
          (dialect, ok) =
            (if \<not> ok then
               (case driverAlias reg driver of
                  Some name \<Rightarrow> comma_ok (drivers reg) name
                | None \<Rightarrow> (dialect, False))
             else (dialect, ok))
      in if \<not> ok then Errorf (''unknown driver: '' @ driver)
         else (case dialect of
                 None \<Rightarrow> Nil_func_panic
               | Some f \<Rightarrow> Opened (gorm_Open (f dsn) opts)))"

subsection \<open>SingleWrap (single.go), one call after another\<close>

definition DEFAULT :: string where
  "DEFAULT = ''DEFAULT''"

text \<open>
  The state the returned closure captures is the map \<open>ins\<close>; the singleflight group holds
  no call between two calls made one after another, and the mutex is free. \<open>get\<close> is any
  Go function: it acts on the rest of the program's state, \<open>world\<close>, and returns an error
  (\<open>Inl\<close>) or a value (\<open>Inr\<close>). \<open>calls\<close> is an observation added to the state: the names
  \<open>get\<close> has been invoked with, oldest first. The type \<open>T\<close> is taken not to be an
  interface type, as in the repository's one instance \<open>*gorm.DB\<close>, so the type assertion
  \<open>instance.(T)\<close> on what \<open>get\<close> returned succeeds.
\<close>

record ('v, 'w) single =
  ins :: "string \<rightharpoonup> 'v"
  calls :: "string list"
  world :: 'w

definition SingleWrap_init :: "'w \<Rightarrow> ('v, 'w) single" where
  "SingleWrap_init w = \<lparr>ins = Map.empty, calls = [], world = w\<rparr>"

text \<open>The function \<open>SingleWrap(get)\<close> returns.\<close>

definition SingleWrap ::
  "(string \<Rightarrow> 'w \<Rightarrow> ('e + 'v) \<times> 'w) \<Rightarrow> string \<Rightarrow> ('v, 'w) single \<Rightarrow> ('e + 'v) \<times> ('v, 'w) single" where
  "SingleWrap get name s =
     (let name = (if name = [] then DEFAULT else name)
      in case ins s name of
           Some instance \<Rightarrow> (Inr instance, s)
         | None \<Rightarrow>
             (let (r, w) = get name (world s);
                  s = s\<lparr>calls := calls s @ [name], world := w\<rparr>
              in case r of
                   Inl err \<Rightarrow> (Inl err, s)
                 | Inr v \<Rightarrow> (Inr v, s\<lparr>ins := (ins s)(name \<mapsto> v)\<rparr>)))"

text \<open>A sequence of calls, with the results in order.\<close>

fun call_all ::
  "(string \<Rightarrow> 'w \<Rightarrow> ('e + 'v) \<times> 'w) \<Rightarrow> string list \<Rightarrow> ('v, 'w) single \<Rightarrow>
     ('e + 'v) list \<times> ('v, 'w) single" where
  "call_all get [] s = ([], s)"
| "call_all get (name # names) s =
     (let (r, s) = SingleWrap get name s; (rs, s) = call_all get names s in (r # rs, s))"

subsection \<open>Database handles and Default (gormx.go)\<close>

text \<open>
  A \<open>*gorm.DB\<close> is an address or \<open>nil\<close> (\<open>None\<close>). Of the library's structs the fields are
  kept that this repository reads or writes; \<open>'e\<close> is Go's \<open>error\<close>, \<open>'m\<close> the values a
  statement's \<open>Model\<close> (of type \<open>any\<close>) can hold. Every address holds an object, and
  \<open>fresh\<close> is the address the next allocation returns.
\<close>

type_synonym addr = nat

typedecl logger_Interface

record gorm_Config =
  Logger :: "logger_Interface option"

record 'm gorm_Statement =
  DB :: "addr option"
  Model :: "'m option"

record ('e, 'm) gorm_DB =
  Config :: "gorm_Config option"
  Error :: "'e option"
  Statement :: "'m gorm_Statement option"

record ('e, 'm) store =
  heap :: "addr \<Rightarrow> ('e, 'm) gorm_DB"
  fresh :: addr

definition new_DB :: "('e, 'm) gorm_DB \<Rightarrow> ('e, 'm) store \<Rightarrow> addr \<times> ('e, 'm) store" where
  "new_DB obj w = (fresh w, w\<lparr>heap := (heap w)(fresh w := obj), fresh := Suc (fresh w)\<rparr>)"

text \<open>
  \<open>var fetch = SingleWrap(Create)\<close>. \<open>Create\<close> opens a connection through \<open>gorm.Open\<close>; it
  is a parameter here, any function from a name to a handle or an error.
\<close>

definition fetch ::
  "(string \<Rightarrow> ('e, 'm) store \<Rightarrow> ('e + addr option) \<times> ('e, 'm) store) \<Rightarrow> string \<Rightarrow>
     (addr option, ('e, 'm) store) single \<Rightarrow>
     ('e + addr option) \<times> (addr option, ('e, 'm) store) single" where
  "fetch Create = SingleWrap Create"

definition Default ::
  "(string \<Rightarrow> ('e, 'm) store \<Rightarrow> ('e + addr option) \<times> ('e, 'm) store) \<Rightarrow>
     (addr option, ('e, 'm) store) single \<Rightarrow> addr option \<times> (addr option, ('e, 'm) store) single" where
  "Default Create s =
     (case fetch Create [] s of
        (Inl err, s) \<Rightarrow>
          (let (d, w) = new_DB \<lparr>Config = Some \<lparr>Logger = None\<rparr>, Error = Some err,
                                 Statement = None\<rparr> (world s);
               w = w\<lparr>heap := (heap w)
                      (d := (heap w d)\<lparr>Statement := Some \<lparr>DB = Some d, Model = None\<rparr>\<rparr>)\<rparr>
           in (Some d, s\<lparr>world := w\<rparr>))
      | (Inr d, s) \<Rightarrow> (d, s))"

subsection \<open>SortExec\<close>

text \<open>
  \<open>tx.Where(where).UpdateColumn(sc.Name, value)\<close> is the library's; the model returns the
  call itself: the handle and the three arguments. Reading \<open>tx.Statement.Model\<close> through a
  \<open>nil\<close> pointer panics.
\<close>

datatype panic = Nil_pointer_dereference

record ('k, 's) update_call =
  call_tx :: "addr option"
  call_where :: "('k, 's) Expr"
  call_column :: string
  call_value :: "('k, 's) Expr"

definition SortExec ::
  "(string \<Rightarrow> ('e, 'm) store \<Rightarrow> ('e + addr option) \<times> ('e, 'm) store) \<Rightarrow> addr option \<Rightarrow>
     ('k::linorder \<times> 's) list \<Rightarrow> string \<Rightarrow> string \<Rightarrow> (addr option, ('e, 'm) store) single \<Rightarrow>
     (panic + ('k, 's) update_call) \<times> (addr option, ('e, 'm) store) single" where
  "SortExec Create tx values keyColumn sortColumn s =
     (let kc = column keyColumn;
          sc = column sortColumn;
          (tx, s) = (case tx of None \<Rightarrow> Default Create s | Some a \<Rightarrow> (tx, s));
          kc_or_panic =
            (if Name kc = [] then
               (case tx of
                  None \<Rightarrow> Inl Nil_pointer_dereference
                | Some a \<Rightarrow>
                    (case Statement (heap (world s) a) of
                       None \<Rightarrow> Inl Nil_pointer_dereference
                     | Some st \<Rightarrow>
                         (if Model st \<noteq> None then Inr (kc\<lparr>Name := clause_PrimaryKey\<rparr>)
                          else Inr (kc\<lparr>Name := ''id''\<rparr>))))
             else Inr kc)
      in case kc_or_panic of
           Inl p \<Rightarrow> (Inl p, s)
         | Inr kc \<Rightarrow>
             (let sc = (if Name sc = [] then sc\<lparr>Name := ''sort''\<rparr> else sc);
                  (where_expr, value_expr) = SortPrep values kc sc
              in (Inr \<lparr>call_tx = tx, call_where = where_expr, call_column = Name sc,
                        call_value = value_expr\<rparr>, s)))"

subsection \<open>SingleWrap (single.go), concurrent callers\<close>

text \<open>
  Each caller is one invocation of the returned function by a goroutine of its own; a
  caller is where its next action is. The actions are the sections of the source that
  run under a lock, the call of \<open>get\<close>, and the entry and exit of
  \<open>singleflight.Group.Do\<close>, which run under the group's mutex:
  \<^item> \<open>Entered name\<close>: called with \<open>name\<close> (line 25). Next: lines 27-38, the name is
    normalised and \<open>ins\<close> is read under the read lock.
  \<^item> \<open>Missed name\<close>: the lookup found nothing (line 38). Next: the entry of \<open>sfg.Do\<close>
    (line 41). By the contract of \<open>singleflight\<close>, when a call for the key is in flight
    the caller waits for it and receives its result; otherwise the caller registers a
    call for the key and executes the function itself.
  \<^item> \<open>Leading name\<close>: executing the function passed to \<open>Do\<close>. Next: \<open>get(name)\<close>
    (line 43).
  \<^item> \<open>Got name r\<close>: \<open>get\<close> has returned \<open>r\<close>. Next, on a value: lines 48-50, the store
    under the write lock; on an error: the exit of \<open>Do\<close>.
  \<^item> \<open>Stored name v\<close>: the value is in \<open>ins\<close>. Next: the exit of \<open>Do\<close>, which removes the
    call from the group and hands the result to the waiting callers; the leading caller
    returns (lines 55-60).
  \<^item> \<open>Waiting l\<close>: waiting in \<open>Do\<close> for the call that caller \<open>l\<close> leads. Next, once that
    call is finished: return its result.
  \<^item> \<open>Returned r\<close>: the call has returned \<open>r\<close>.
\<close>

datatype ('e, 'v) pc =
    Entered string
  | Missed string
  | Leading string
  | Got string "'e + 'v"
  | Stored string 'v
  | Waiting nat
  | Returned "'e + 'v"

text \<open>
  The shared state: the callers, the map \<open>ins\<close>, the calls in flight in the group (a key
  maps to the caller that leads its call), the results of the finished calls, the
  invocations of \<open>get\<close> so far, and the world \<open>get\<close> acts on.
\<close>

record ('e, 'v, 'w) conc =
  callers :: "('e, 'v) pc list"
  c_ins :: "string \<rightharpoonup> 'v"
  in_flight :: "string \<rightharpoonup> nat"
  finished :: "nat \<rightharpoonup> 'e + 'v"
  c_calls :: "string list"
  c_world :: 'w

definition conc_init :: "string list \<Rightarrow> 'w \<Rightarrow> ('e, 'v, 'w) conc" where
  "conc_init names w =
     \<lparr>callers = map Entered names, c_ins = Map.empty, in_flight = Map.empty,
      finished = Map.empty, c_calls = [], c_world = w\<rparr>"

text \<open>Caller \<open>t\<close> performs its next action; a caller that waits or has returned stays.\<close>

definition step ::
  "(string \<Rightarrow> 'w \<Rightarrow> ('e + 'v) \<times> 'w) \<Rightarrow> nat \<Rightarrow> ('e, 'v, 'w) conc \<Rightarrow> ('e, 'v, 'w) conc" where
  "step get t s =
     (if t < length (callers s) then
        (case callers s ! t of
           Entered name \<Rightarrow>
             (let name = (if name = [] then DEFAULT else name)
              in case c_ins s name of
                   Some instance \<Rightarrow> s\<lparr>callers := (callers s)[t := Returned (Inr instance)]\<rparr>
                 | None \<Rightarrow> s\<lparr>callers := (callers s)[t := Missed name]\<rparr>)
         | Missed name \<Rightarrow>
             (case in_flight s name of
                Some l \<Rightarrow> s\<lparr>callers := (callers s)[t := Waiting l]\<rparr>
              | None \<Rightarrow> s\<lparr>callers := (callers s)[t := Leading name],
                          in_flight := (in_flight s)(name \<mapsto> t)\<rparr>)
         | Leading name \<Rightarrow>
             (let (r, w) = get name (c_world s)
              in s\<lparr>callers := (callers s)[t := Got name r],
                   c_calls := c_calls s @ [name], c_world := w\<rparr>)
         | Got name r \<Rightarrow>
             (case r of
                Inl err \<Rightarrow> s\<lparr>callers := (callers s)[t := Returned (Inl err)],
                             in_flight := (in_flight s)(name := None),
                             finished := (finished s)(t \<mapsto> Inl err)\<rparr>
              | Inr v \<Rightarrow> s\<lparr>callers := (callers s)[t := Stored name v],
                           c_ins := (c_ins s)(name \<mapsto> v)\<rparr>)
         | Stored name v \<Rightarrow>
             s\<lparr>callers := (callers s)[t := Returned (Inr v)],
               in_flight := (in_flight s)(name := None),
               finished := (finished s)(t \<mapsto> Inr v)\<rparr>
         | Waiting l \<Rightarrow>
             (case finished s l of
                Some r \<Rightarrow> s\<lparr>callers := (callers s)[t := Returned r]\<rparr>
              | None \<Rightarrow> s)
         | Returned r \<Rightarrow> s)
      else s)"

text \<open>A schedule is the list of the callers that act, in order.\<close>

fun run ::
  "(string \<Rightarrow> 'w \<Rightarrow> ('e + 'v) \<times> 'w) \<Rightarrow> nat list \<Rightarrow> ('e, 'v, 'w) conc \<Rightarrow> ('e, 'v, 'w) conc" where
  "run get [] s = s"
| "run get (t # ts) s = run get ts (step get t s)"

text \<open>One caller alone, started in a state of the sequential model.\<close>

definition alone :: "string \<Rightarrow> ('v, 'w) single \<Rightarrow> ('e, 'v, 'w) conc" where
  "alone name s =
     \<lparr>callers = [Entered name], c_ins = ins s, in_flight = Map.empty,
      finished = Map.empty, c_calls = calls s, c_world = world s\<rparr>"

text \<open>
  A caller that has missed the cache for \<open>key\<close> and has not yet left \<open>Do\<close>: it will, or
  may, run \<open>get\<close> for \<open>key\<close> and store what it returns.
\<close>

fun past_lookup :: "string \<Rightarrow> ('e, 'v) pc \<Rightarrow> bool" where
  "past_lookup key (Missed name) = (name = key)"
| "past_lookup key (Leading name) = (name = key)"
| "past_lookup key (Got name r) = (name = key)"
| "past_lookup key (Stored name v) = (name = key)"
| "past_lookup key (Entered name) = False"
| "past_lookup key (Waiting l) = False"
| "past_lookup key (Returned r) = False"

subsection \<open>Concrete data for the examples\<close>

text \<open>The mapping of \<open>TestSort\<close> (sort_test.go), in the order the literal lists it.\<close>

definition test_sorts :: "(string \<times> int) list" where
  "test_sorts = [(''5'', 5), (''1'', 2), (''2'', 1), (''3'', 3), (''4'', 4)]"

text \<open>The same mapping visited in another order.\<close>

definition test_sorts_other :: "(string \<times> int) list" where
  "test_sorts_other = [(''3'', 3), (''2'', 1), (''5'', 5), (''4'', 4), (''1'', 2)]"

text \<open>The columns \<open>SortExec\<close> passes on when the test calls it with two empty names.\<close>

definition test_kc :: Column where
  "test_kc = \<lparr>Table = ''~~~ct~~~'', Name = ''~~~py~~~'', Alias = [], Raw = False\<rparr>"

definition test_sc :: Column where
  "test_sc = \<lparr>Table = ''~~~ct~~~'', Name = ''sort'', Alias = [], Raw = False\<rparr>"

text \<open>
  A registry after two registrations, one with aliases; the dialector of a connection
  string is, for the example, its length.
\<close>

definition test_registry :: "nat registry" where
  "test_registry =
     RegisterDriver ''mysql'' (Some length) [''mariadb'', ''tidb'']
       (RegisterDriver ''sqlite'' (Some (\<lambda>dsn. 0)) []
          \<lparr>drivers = Map.empty, driverAlias = Map.empty\<rparr>)"

text \<open>
  Two constructors over a world that counts the connection attempts: one succeeds on the
  first attempt only, the other fails on the first attempt only.
\<close>

definition get_once :: "string \<Rightarrow> nat \<Rightarrow> (string + string) \<times> nat" where
  "get_once name w = (if w = 0 then Inr name else Inl ''gone'', Suc w)"


text \<open>
  A \<open>Create\<close> that fails as \<open>Open\<close> does on an unregistered driver, and a store in which
  every address holds a handle with a statement; the statement of the handle at address
  1 has a model, as after \<open>tx.Model(&ZZ{})\<close> in \<open>TestSort\<close>, the others have none.
\<close>

definition Create_unknown ::
  "string \<Rightarrow> (string, string) store \<Rightarrow> (string + addr option) \<times> (string, string) store" where
  "Create_unknown name w = (Inl ''unknown driver: oracle'', w)"

definition test_store :: "(string, string) store" where
  "test_store =
     \<lparr>heap = (\<lambda>a. \<lparr>Config = Some \<lparr>Logger = None\<rparr>, Error = None,
                    Statement = Some \<lparr>DB = Some a,
                                      Model = (if a = 1 then Some ''ZZ'' else None)\<rparr>\<rparr>),
      fresh = 2\<rparr>"

text \<open>A constructor that opens a new resource on every call: the world numbers them.\<close>

definition get_fresh :: "string \<Rightarrow> nat \<Rightarrow> (string + nat) \<times> nat" where
  "get_fresh name w = (Inr w, Suc w)"

section \<open>Properties\<close>

subsection \<open>SortPrep\<close>

lemma collect_keys_eq: "collect_keys kvs keys = keys @ map fst kvs"
  by (induction kvs keys rule: collect_keys.induct) simp_all

lemma case_loop_eq:
  "case_loop kvs keys (sql, args) =
     (sql @ concat (replicate (length keys) '' WHEN ? THEN ?''),
      args @ concat (map (\<lambda>k. [Key k, map_index kvs k]) keys))"
  by (induction keys arbitrary: sql args) simp_all

lemma branches_of_keys:
  assumes "set ks \<subseteq> dom (map_of kvs)"
  shows "concat (map (\<lambda>k. [Key k, map_index kvs k]) ks)
           = spec_branches (map (\<lambda>k. (k, the (map_of kvs k))) ks)"
  using assms
proof (induction ks)
  case Nil
  show ?case by (simp add: spec_branches_def)
next
  case (Cons k ks)
  from Cons.prems obtain v where "map_of kvs k = Some v" by auto
  with Cons show ?case by (simp add: spec_branches_def map_index_def)
qed

lemma sorted_keys_of_map:
  assumes "distinct (map fst kvs)"
  shows "sort (map fst kvs) = sorted_list_of_set (dom (map_of kvs))"
proof -
  have "sorted_list_of_set (set (map fst kvs)) = sort (remdups (map fst kvs))"
    by (rule sorted_list_of_set_sort_remdups)
  with assms show ?thesis by (simp add: dom_map_of_conv_image_fst distinct_remdups_id)
qed

text \<open>
  What \<open>SortPrep\<close> returns, written with the mapping \<open>map_of kvs\<close> alone: the order in
  which the pairs were visited has gone.
\<close>

lemma SortPrep_closed_form:
  assumes "distinct (map fst kvs)"
  shows "SortPrep kvs kc sc =
     (\<lparr>SQL = ''? in (?)'', Vars = [Col kc, Keys (sorted_list_of_set (dom (map_of kvs)))]\<rparr>,
      \<lparr>SQL = spec_case_sql (card (dom (map_of kvs))),
       Vars = Col kc #
         spec_branches (map (\<lambda>k. (k, the (map_of kvs k))) (sorted_list_of_set (dom (map_of kvs))))
         @ [Col sc]\<rparr>)"
proof -
  let ?ks = "sorted_list_of_set (dom (map_of kvs))"
  have fin: "finite (dom (map_of kvs))" by (rule finite_dom_map_of)
  have ks: "sort (collect_keys kvs []) = ?ks"
    using assms by (simp add: collect_keys_eq sorted_keys_of_map)
  have len: "length ?ks = card (dom (map_of kvs))"
    using fin by simp
  have sub: "set ?ks \<subseteq> dom (map_of kvs)"
    using fin by simp
  show ?thesis
    unfolding SortPrep_def Let_def ks case_loop_eq gorm_Expr_def
    by (simp add: branches_of_keys [OF sub] len spec_case_sql_def)
qed

lemma SortPrep_test_sorts:
  "SortPrep test_sorts test_kc test_sc =
     (\<lparr>SQL = ''? in (?)'', Vars = [Col test_kc, Keys [''1'', ''2'', ''3'', ''4'', ''5'']]\<rparr>,
      \<lparr>SQL = ''(CASE ? WHEN ? THEN ? WHEN ? THEN ? WHEN ? THEN ? WHEN ? THEN ? WHEN ? THEN ? ELSE ? END)'',
       Vars = [Col test_kc, Key ''1'', Val 2, Key ''2'', Val 1, Key ''3'', Val 3,
               Key ''4'', Val 4, Key ''5'', Val 5, Col test_sc]\<rparr>)"
  by (simp add: SortPrep_def test_sorts_def gorm_Expr_def map_index_def)

text \<open>
  \<^bold>\<open>C1.\<close> For a non-empty mapping (an association list with distinct keys), \<open>SortPrep\<close>
  returns the filter \<open>? in (?)\<close> bound to the key column and the list of exactly the
  mapping's keys, and one CASE expression over the key column with one
  \<open>WHEN K THEN values[K]\<close> branch per key \<open>K\<close>, at least one, in ascending key order,
  closed by an ELSE branch bound to the sort column.
\<close>

theorem SortPrep_case_expression:
  assumes "kvs \<noteq> []" and "distinct (map fst kvs)"
  shows "SortPrep kvs kc sc =
     (\<lparr>SQL = ''? in (?)'', Vars = [Col kc, Keys (sorted_list_of_set (dom (map_of kvs)))]\<rparr>,
      \<lparr>SQL = spec_case_sql (card (dom (map_of kvs))),
       Vars = Col kc #
         spec_branches (map (\<lambda>k. (k, the (map_of kvs k))) (sorted_list_of_set (dom (map_of kvs))))
         @ [Col sc]\<rparr>)
     \<and> set (sorted_list_of_set (dom (map_of kvs))) = dom (map_of kvs)
     \<and> 0 < card (dom (map_of kvs))"
proof -
  have fin: "finite (dom (map_of kvs))" by (rule finite_dom_map_of)
  from assms(1) have "dom (map_of kvs) \<noteq> {}"
    by (cases kvs) (auto simp: dom_map_of_conv_image_fst)
  with fin have "0 < card (dom (map_of kvs))" by (simp add: card_gt_0_iff)
  with fin SortPrep_closed_form [OF assms(2)] show ?thesis by simp
qed

theorem SortPrep_case_expression_witness:
  "test_sorts \<noteq> [] \<and> distinct (map fst test_sorts)
   \<and> SQL (snd (SortPrep test_sorts test_kc test_sc)) = spec_case_sql (card (dom (map_of test_sorts)))
   \<and> set (sorted_list_of_set (dom (map_of test_sorts))) = dom (map_of test_sorts)
   \<and> 0 < card (dom (map_of test_sorts))
   \<and> SortPrep test_sorts test_kc test_sc =
     (\<lparr>SQL = ''? in (?)'', Vars = [Col test_kc, Keys [''1'', ''2'', ''3'', ''4'', ''5'']]\<rparr>,
      \<lparr>SQL = ''(CASE ? WHEN ? THEN ? WHEN ? THEN ? WHEN ? THEN ? WHEN ? THEN ? WHEN ? THEN ? ELSE ? END)'',
       Vars = [Col test_kc, Key ''1'', Val 2, Key ''2'', Val 1, Key ''3'', Val 3,
               Key ''4'', Val 4, Key ''5'', Val 5, Col test_sc]\<rparr>)"
proof -
  have h1: "test_sorts \<noteq> []" by (simp add: test_sorts_def)
  have h2: "distinct (map fst test_sorts)" by (simp add: test_sorts_def)
  note t = SortPrep_case_expression [OF h1 h2, of test_kc test_sc]
  from t have "SQL (snd (SortPrep test_sorts test_kc test_sc))
                 = spec_case_sql (card (dom (map_of test_sorts)))"
    by simp
  with t h1 h2 SortPrep_test_sorts show ?thesis by blast
qed

text \<open>
  \<^bold>\<open>C3.\<close> On the empty mapping \<open>SortPrep\<close> returns the filter \<open>? in (?)\<close> bound to an empty
  list of keys, and the value expression \<open>(CASE ? ELSE ? END)\<close>: a CASE with no WHEN
  branch.
\<close>

theorem SortPrep_empty_mapping:
  "SortPrep [] kc sc =
     (\<lparr>SQL = ''? in (?)'', Vars = [Col kc, Keys []]\<rparr>,
      \<lparr>SQL = ''(CASE ? ELSE ? END)'', Vars = [Col kc, Col sc]\<rparr>)"
  by (simp add: SortPrep_def gorm_Expr_def)

text \<open>
  \<^bold>\<open>C6.\<close> Two association lists that hold the same mapping, whatever the order of their
  pairs, give the same filter and the same value expression, and the keys the filter is
  bound to are the mapping's keys in ascending order.
\<close>

theorem SortPrep_deterministic:
  assumes "distinct (map fst kvs)" and "distinct (map fst kvs')"
    and "map_of kvs = map_of kvs'"
  shows "SortPrep kvs kc sc = SortPrep kvs' kc sc
     \<and> Vars (fst (SortPrep kvs kc sc)) = [Col kc, Keys (sorted_list_of_set (dom (map_of kvs)))]"
  using assms by (simp add: SortPrep_closed_form)

theorem SortPrep_deterministic_witness:
  "distinct (map fst test_sorts) \<and> distinct (map fst test_sorts_other)
   \<and> map_of test_sorts = map_of test_sorts_other
   \<and> SortPrep test_sorts test_kc test_sc = SortPrep test_sorts_other test_kc test_sc
   \<and> Vars (fst (SortPrep test_sorts test_kc test_sc))
       = [Col test_kc, Keys (sorted_list_of_set (dom (map_of test_sorts)))]"
proof -
  have h1: "distinct (map fst test_sorts)" by (simp add: test_sorts_def)
  have h2: "distinct (map fst test_sorts_other)" by (simp add: test_sorts_other_def)
  have h3: "map_of test_sorts = map_of test_sorts_other"
    by (rule ext) (simp add: test_sorts_def test_sorts_other_def)
  from SortPrep_deterministic [OF h1 h2 h3, of test_kc test_sc] h1 h2 h3
  show ?thesis by blast
qed

subsection \<open>Open\<close>

lemma comma_ok_Some: "m k = Some f \<Longrightarrow> comma_ok m k = (f, True)"
  by (simp add: comma_ok_def)

lemma comma_ok_None: "m k = None \<Longrightarrow> comma_ok m k = (None, False)"
  by (simp add: comma_ok_def)

lemma test_registry_drivers:
  "drivers test_registry ''oracle'' = None"
  "drivers test_registry ''tidb'' = None"
  "drivers test_registry ''mysql'' = Some (Some length)"
  by (simp_all add: test_registry_def RegisterDriver_def)

lemma test_registry_alias:
  "driverAlias test_registry ''oracle'' = None"
  "driverAlias test_registry ''tidb'' = Some ''mysql''"
  by (simp_all add: test_registry_def RegisterDriver_def)

text \<open>
  \<^bold>\<open>C8.\<close> For a driver identifier that is neither a key of \<open>drivers\<close> nor an alias of one,
  \<open>Open\<close> returns the error \<open>unknown driver: \<close> followed by the identifier. For an
  identifier registered directly, or through an alias of a registered name, \<open>Open\<close>
  calls the registered function on the connection string and passes the dialector to
  \<open>gorm.Open\<close> (calling a registered \<open>nil\<close> function panics).
\<close>

theorem Open_unknown_or_registered:
  "(drivers reg driver = None \<and>
      (\<forall>name. driverAlias reg driver = Some name \<longrightarrow> drivers reg name = None)
      \<longrightarrow> Open reg gorm_Open driver dsn opts = Errorf (''unknown driver: '' @ driver))
   \<and> (drivers reg driver = Some dialect
      \<longrightarrow> Open reg gorm_Open driver dsn opts =
            (case dialect of None \<Rightarrow> Nil_func_panic
                           | Some f \<Rightarrow> Opened (gorm_Open (f dsn) opts)))
   \<and> (drivers reg driver = None \<and> driverAlias reg driver = Some name
        \<and> drivers reg name = Some dialect
      \<longrightarrow> Open reg gorm_Open driver dsn opts =
            (case dialect of None \<Rightarrow> Nil_func_panic
                           | Some f \<Rightarrow> Opened (gorm_Open (f dsn) opts)))"
proof (intro conjI impI)
  assume a: "drivers reg driver = None \<and>
      (\<forall>name. driverAlias reg driver = Some name \<longrightarrow> drivers reg name = None)"
  show "Open reg gorm_Open driver dsn opts = Errorf (''unknown driver: '' @ driver)"
  proof (cases "driverAlias reg driver")
    case None
    with a show ?thesis by (simp add: Open_def comma_ok_None)
  next
    case (Some n)
    with a have "drivers reg n = None" by simp
    with a Some show ?thesis by (simp add: Open_def comma_ok_None)
  qed
next
  assume "drivers reg driver = Some dialect"
  then show "Open reg gorm_Open driver dsn opts =
            (case dialect of None \<Rightarrow> Nil_func_panic
                           | Some f \<Rightarrow> Opened (gorm_Open (f dsn) opts))"
    by (simp add: Open_def comma_ok_Some)
next
  assume "drivers reg driver = None \<and> driverAlias reg driver = Some name
        \<and> drivers reg name = Some dialect"
  then show "Open reg gorm_Open driver dsn opts =
            (case dialect of None \<Rightarrow> Nil_func_panic
                           | Some f \<Rightarrow> Opened (gorm_Open (f dsn) opts))"
    by (simp add: Open_def comma_ok_Some comma_ok_None)
qed

theorem Open_unknown_or_registered_witness:
  "drivers test_registry ''oracle'' = None \<and> driverAlias test_registry ''oracle'' = None
   \<and> Open test_registry (\<lambda>d (opts :: unit). d) ''oracle'' ''root@/app'' () = Errorf ''unknown driver: oracle''
   \<and> drivers test_registry ''mysql'' = Some (Some length)
   \<and> Open test_registry (\<lambda>d (opts :: unit). d) ''mysql'' ''root@/app'' () = Opened 9
   \<and> drivers test_registry ''tidb'' = None \<and> driverAlias test_registry ''tidb'' = Some ''mysql''
   \<and> Open test_registry (\<lambda>d (opts :: unit). d) ''tidb'' ''root@/app'' () = Opened 9"
proof -
  have u: "drivers test_registry ''oracle'' = None \<and>
      (\<forall>name. driverAlias test_registry ''oracle'' = Some name \<longrightarrow> drivers test_registry name = None)"
    by (simp add: test_registry_drivers test_registry_alias)
  have d: "drivers test_registry ''mysql'' = Some (Some length)"
    by (rule test_registry_drivers)
  have a: "drivers test_registry ''tidb'' = None \<and> driverAlias test_registry ''tidb'' = Some ''mysql''
        \<and> drivers test_registry ''mysql'' = Some (Some length)"
    by (simp add: test_registry_drivers test_registry_alias)
  from u Open_unknown_or_registered [of test_registry "''oracle''" "\<lambda>d (opts :: unit). d" "''root@/app''" "()"]
  have 1: "Open test_registry (\<lambda>d (opts :: unit). d) ''oracle'' ''root@/app'' () = Errorf ''unknown driver: oracle''"
    by simp
  from d Open_unknown_or_registered [of test_registry "''mysql''" "\<lambda>d (opts :: unit). d" "''root@/app''" "()" "Some length"]
  have 2: "Open test_registry (\<lambda>d (opts :: unit). d) ''mysql'' ''root@/app'' () = Opened 9"
    by simp
  from a Open_unknown_or_registered [of test_registry "''tidb''" "\<lambda>d (opts :: unit). d" "''root@/app''" "()" "Some length" "''mysql''"]
  have 3: "Open test_registry (\<lambda>d (opts :: unit). d) ''tidb'' ''root@/app'' () = Opened 9"
    by simp
  from 1 2 3 show ?thesis
    by (simp add: test_registry_drivers test_registry_alias)
qed

subsection \<open>SingleWrap, one call after another\<close>

lemma SingleWrap_hit:
  "ins s (if name = [] then DEFAULT else name) = Some v \<Longrightarrow> SingleWrap get name s = (Inr v, s)"
  by (simp add: SingleWrap_def)

lemma SingleWrap_miss:
  assumes "ins s (if name = [] then DEFAULT else name) = None"
  shows "SingleWrap get name s =
     (let key = (if name = [] then DEFAULT else name);
          (r, w) = get key (world s);
          s' = s\<lparr>calls := calls s @ [key], world := w\<rparr>
      in case r of Inl err \<Rightarrow> (Inl err, s') | Inr v \<Rightarrow> (Inr v, s'\<lparr>ins := (ins s)(key \<mapsto> v)\<rparr>))"
  using assms by (simp add: SingleWrap_def Let_def split: prod.splits sum.splits)

lemma SingleWrap_keeps_entry:
  assumes "ins s key = Some v" and "SingleWrap get name s = (r, s')"
  shows "ins s' key = Some v \<and> count_list (calls s') key = count_list (calls s) key"
proof (cases "ins s (if name = [] then DEFAULT else name)")
  case (Some u)
  with assms show ?thesis by (simp add: SingleWrap_hit)
next
  case None
  with assms(1) have neq: "(if name = [] then DEFAULT else name) \<noteq> key" by auto
  from assms(2) None neq assms(1) show ?thesis
    by (auto simp: SingleWrap_miss Let_def split: prod.splits sum.splits if_splits)
qed

lemma SingleWrap_success_stored:
  assumes "SingleWrap get name s = (Inr v, s')"
  shows "ins s' (if name = [] then DEFAULT else name) = Some v"
proof (cases "ins s (if name = [] then DEFAULT else name)")
  case (Some u)
  with assms show ?thesis by (simp add: SingleWrap_hit)
next
  case None
  with assms show ?thesis
    by (auto simp: SingleWrap_miss Let_def split: prod.splits sum.splits if_splits)
qed

lemma call_all_keeps_entry:
  assumes "ins s key = Some v" and "call_all get names s = (rs, s')"
  shows "ins s' key = Some v \<and> count_list (calls s') key = count_list (calls s) key
         \<and> length rs = length names
         \<and> (\<forall>i < length names. (if names ! i = [] then DEFAULT else names ! i) = key \<longrightarrow> rs ! i = Inr v)"
  using assms
proof (induction names arbitrary: s rs s')
  case Nil
  then show ?case by simp
next
  case (Cons n names)
  obtain r s1 where c1: "SingleWrap get n s = (r, s1)" by (cases "SingleWrap get n s")
  obtain rs1 s2 where c2: "call_all get names s1 = (rs1, s2)" by (cases "call_all get names s1")
  from Cons.prems(2) c1 c2 have eq: "rs = r # rs1" "s' = s2" by simp_all
  from SingleWrap_keeps_entry [OF Cons.prems(1) c1]
  have k1: "ins s1 key = Some v" "count_list (calls s1) key = count_list (calls s) key" by simp_all
  from Cons.IH [OF k1(1) c2]
  have ih: "ins s2 key = Some v" "count_list (calls s2) key = count_list (calls s1) key"
    "length rs1 = length names"
    "\<forall>i < length names. (if names ! i = [] then DEFAULT else names ! i) = key \<longrightarrow> rs1 ! i = Inr v"
    by simp_all
  have hd: "(if n = [] then DEFAULT else n) = key \<Longrightarrow> r = Inr v"
    using Cons.prems(1) c1 by (simp add: SingleWrap_hit)
  have "\<forall>i < length (n # names). (if (n # names) ! i = [] then DEFAULT else (n # names) ! i) = key
          \<longrightarrow> (r # rs1) ! i = Inr v"
  proof (intro allI impI)
    fix i assume "i < length (n # names)"
      and "(if (n # names) ! i = [] then DEFAULT else (n # names) ! i) = key"
    then show "(r # rs1) ! i = Inr v"
      using hd ih(4) by (cases i) (auto split: if_splits)
  qed
  with eq k1 ih show ?case by simp
qed

text \<open>
  For calls made one after another: once a call for a name has succeeded with \<open>v\<close>,
  then after any further calls, for any names, a call for that name returns \<open>v\<close> with
  no error and leaves the state as it is (so \<open>get\<close> does not run); the entry still
  holds \<open>v\<close>; \<open>get\<close> has not been invoked for the name in between; and each of the
  calls in between for that name returned \<open>v\<close>. Among concurrent callers this needs
  more, see \<open>run_settled\<close> and \<open>SingleWrap_concurrent_entry_replaced\<close> below.
\<close>

lemma SingleWrap_cached_forever:
  assumes "SingleWrap get name s = (Inr v, s1)" and "call_all get names s1 = (rs, s2)"
  shows "SingleWrap get name s2 = (Inr v, s2)
     \<and> ins s2 (if name = [] then DEFAULT else name) = Some v
     \<and> count_list (calls s2) (if name = [] then DEFAULT else name)
         = count_list (calls s1) (if name = [] then DEFAULT else name)
     \<and> (\<forall>i < length names. (if names ! i = [] then DEFAULT else names ! i)
            = (if name = [] then DEFAULT else name) \<longrightarrow> rs ! i = Inr v)"
proof -
  have st: "ins s1 (if name = [] then DEFAULT else name) = Some v"
    using assms(1) by (rule SingleWrap_success_stored)
  from call_all_keeps_entry [OF st assms(2)] show ?thesis
    by (simp add: SingleWrap_hit)
qed

lemma SingleWrap_cached_forever_example:
  "SingleWrap get_once ''main'' (SingleWrap_init 0)
      = (Inr ''main'', \<lparr>ins = [''main'' \<mapsto> ''main''], calls = [''main''], world = 1\<rparr>)
   \<and> call_all get_once [''logs'', ''main'', []] \<lparr>ins = [''main'' \<mapsto> ''main''], calls = [''main''], world = 1\<rparr>
      = ([Inl ''gone'', Inr ''main'', Inl ''gone''],
         \<lparr>ins = [''main'' \<mapsto> ''main''], calls = [''main'', ''logs'', ''DEFAULT''], world = 3\<rparr>)
   \<and> SingleWrap get_once ''main'' \<lparr>ins = [''main'' \<mapsto> ''main''], calls = [''main'', ''logs'', ''DEFAULT''], world = 3\<rparr>
      = (Inr ''main'', \<lparr>ins = [''main'' \<mapsto> ''main''], calls = [''main'', ''logs'', ''DEFAULT''], world = 3\<rparr>)"
proof -
  let ?s1 = "\<lparr>ins = [''main'' \<mapsto> ''main''], calls = [''main''], world = 1 :: nat\<rparr>"
  let ?s2 = "\<lparr>ins = [''main'' \<mapsto> ''main''], calls = [''main'', ''logs'', ''DEFAULT''], world = 3 :: nat\<rparr>"
  have h1: "SingleWrap get_once ''main'' (SingleWrap_init 0) = (Inr ''main'', ?s1)"
    by (simp add: SingleWrap_def SingleWrap_init_def get_once_def Let_def)
  have h2: "call_all get_once [''logs'', ''main'', []] ?s1 = ([Inl ''gone'', Inr ''main'', Inl ''gone''], ?s2)"
    by (simp add: SingleWrap_def get_once_def DEFAULT_def Let_def)
  from SingleWrap_cached_forever [OF h1 h2] h1 h2 show ?thesis by simp
qed




subsection \<open>Default\<close>

lemma fetch_keeps_cache_non_nil:
  assumes "\<forall>name w. fst (Create name w) \<noteq> Inr None"
    and "\<forall>name. ins s name \<noteq> Some None"
  shows "fst (fetch Create name s) \<noteq> Inr None
     \<and> (\<forall>n. ins (snd (fetch Create name s)) n \<noteq> Some None)"
proof (cases "ins s (if name = [] then DEFAULT else name)")
  case (Some v)
  with assms(2) have "v \<noteq> None" by metis
  with Some assms(2) show ?thesis
    by (simp add: fetch_def SingleWrap_def)
next
  case None
  obtain r w where g: "Create (if name = [] then DEFAULT else name) (world s) = (r, w)"
    by (cases "Create (if name = [] then DEFAULT else name) (world s)")
  with assms(1) have "r \<noteq> Inr None"
    by (metis fst_conv)
  with None g assms(2) show ?thesis
    by (cases r) (auto simp: fetch_def SingleWrap_def Let_def)
qed

lemma Default_on_failure:
  assumes "fetch Create [] s = (Inl err, s1)"
  shows "Default Create s =
     (Some (fresh (world s1)),
      s1\<lparr>world := (world s1)
           \<lparr>heap := (heap (world s1))
              (fresh (world s1) :=
                 \<lparr>Config = Some \<lparr>Logger = None\<rparr>, Error = Some err,
                  Statement = Some \<lparr>DB = Some (fresh (world s1)), Model = None\<rparr>\<rparr>),
            fresh := Suc (fresh (world s1))\<rparr>\<rparr>)"
  using assms by (simp add: Default_def new_DB_def Let_def)

lemma Default_on_success:
  assumes "fetch Create [] s = (Inr d, s1)"
  shows "Default Create s = (d, s1)"
  using assms by (simp add: Default_def)

text \<open>
  \<^bold>\<open>C10.\<close> \<open>Default\<close> returns a handle that is not \<open>nil\<close>, given that \<open>Create\<close> never
  returns \<open>nil\<close> without an error (what it returns without an error is what \<open>gorm.Open\<close>
  returned) and that no \<open>nil\<close> is cached, which then stays so. When \<open>fetch\<close> fails, the
  handle is a new object whose \<open>Error\<close> is the error of \<open>fetch\<close>, whose \<open>Config\<close> points to
  a zero configuration and whose \<open>Statement\<close> points to a statement that refers back to
  the handle; the error is not returned beside it.
\<close>

theorem Default_never_nil:
  assumes "\<forall>name w. fst (Create name w) \<noteq> Inr None"
    and "\<forall>name. ins s name \<noteq> Some None"
  shows "fst (Default Create s) \<noteq> None
     \<and> (\<forall>name. ins (snd (Default Create s)) name \<noteq> Some None)
     \<and> (\<forall>err s1. fetch Create [] s = (Inl err, s1) \<longrightarrow>
           fst (Default Create s) = Some (fresh (world s1))
           \<and> ins (snd (Default Create s)) = ins s1
           \<and> heap (world (snd (Default Create s))) (fresh (world s1)) =
               \<lparr>Config = Some \<lparr>Logger = None\<rparr>, Error = Some err,
                Statement = Some \<lparr>DB = Some (fresh (world s1)), Model = None\<rparr>\<rparr>)"
proof -
  obtain r s1 where f: "fetch Create [] s = (r, s1)" by (cases "fetch Create [] s")
  from fetch_keeps_cache_non_nil [OF assms, of "[]"] f
  have r: "r \<noteq> Inr None" and c: "\<forall>n. ins s1 n \<noteq> Some None" by simp_all
  show ?thesis
  proof (cases r)
    case (Inl err)
    with f c show ?thesis by (simp add: Default_on_failure)
  next
    case (Inr d)
    with f c r show ?thesis by (simp add: Default_on_success)
  qed
qed

theorem Default_never_nil_witness:
  "(\<forall>name w. fst (Create_unknown name w) \<noteq> Inr None)
   \<and> (\<forall>name. ins (SingleWrap_init test_store :: (addr option, (string, string) store) single) name \<noteq> Some None)
   \<and> fst (Default Create_unknown (SingleWrap_init test_store)) = Some 2
   \<and> heap (world (snd (Default Create_unknown (SingleWrap_init test_store)))) 2 =
        \<lparr>Config = Some \<lparr>Logger = None\<rparr>, Error = Some ''unknown driver: oracle'',
         Statement = Some \<lparr>DB = Some 2, Model = None\<rparr>\<rparr>"
proof -
  let ?s = "SingleWrap_init test_store :: (addr option, (string, string) store) single"
  have h1: "\<forall>name w. fst (Create_unknown name w) \<noteq> Inr None"
    by (simp add: Create_unknown_def)
  have h2: "\<forall>name. ins ?s name \<noteq> Some None"
    by (simp add: SingleWrap_init_def)
  have f: "fetch Create_unknown [] ?s
             = (Inl ''unknown driver: oracle'', ?s\<lparr>calls := [''DEFAULT'']\<rparr>)"
    by (simp add: fetch_def SingleWrap_def SingleWrap_init_def Create_unknown_def DEFAULT_def Let_def)
  have fr: "fresh (world (?s\<lparr>calls := [''DEFAULT'']\<rparr>)) = 2"
    by (simp add: SingleWrap_init_def test_store_def)
  from Default_never_nil [OF h1 h2, THEN conjunct2, THEN conjunct2] f
  have "fst (Default Create_unknown ?s) = Some (fresh (world (?s\<lparr>calls := [''DEFAULT'']\<rparr>)))
      \<and> heap (world (snd (Default Create_unknown ?s))) (fresh (world (?s\<lparr>calls := [''DEFAULT'']\<rparr>))) =
          \<lparr>Config = Some \<lparr>Logger = None\<rparr>, Error = Some ''unknown driver: oracle'',
           Statement = Some \<lparr>DB = Some (fresh (world (?s\<lparr>calls := [''DEFAULT'']\<rparr>))), Model = None\<rparr>\<rparr>"
    by blast
  with fr h1 h2 show ?thesis by simp
qed

subsection \<open>SortExec\<close>

lemma column_empty: "column [] = \<lparr>Table = clause_CurrentTable, Name = [], Alias = [], Raw = False\<rparr>"
  by (simp add: column_def strings_Index_def strings_Cut_def strings_ToLower_def
      strings_TrimFunc_def clause_CurrentTable_def Let_def)

lemma SortPrep_vars:
  "hd (Vars (fst (SortPrep kvs kc sc))) = Col kc"
  "hd (Vars (snd (SortPrep kvs kc sc))) = Col kc"
  "last (Vars (snd (SortPrep kvs kc sc))) = Col sc"
  by (simp_all add: SortPrep_def Let_def gorm_Expr_def case_loop_eq)

lemma SortExec_no_model:
  "fst (SortExec Create_unknown (Some 0) test_sorts [] [] (SingleWrap_init test_store)) =
     Inr \<lparr>call_tx = Some 0,
          call_where = \<lparr>SQL = ''? in (?)'',
             Vars = [Col \<lparr>Table = ''~~~ct~~~'', Name = ''id'', Alias = [], Raw = False\<rparr>,
                     Keys [''1'', ''2'', ''3'', ''4'', ''5'']]\<rparr>,
          call_column = ''sort'',
          call_value = \<lparr>SQL = ''(CASE ? WHEN ? THEN ? WHEN ? THEN ? WHEN ? THEN ? WHEN ? THEN ? WHEN ? THEN ? ELSE ? END)'',
             Vars = [Col \<lparr>Table = ''~~~ct~~~'', Name = ''id'', Alias = [], Raw = False\<rparr>,
                     Key ''1'', Val 2, Key ''2'', Val 1, Key ''3'', Val 3,
                     Key ''4'', Val 4, Key ''5'', Val 5, Col test_sc]\<rparr>\<rparr>"
  by (simp add: SortExec_def column_empty SingleWrap_init_def test_store_def Let_def
      SortPrep_def test_sorts_def gorm_Expr_def map_index_def clause_CurrentTable_def test_sc_def)

text \<open>
  \<^bold>\<open>C7\<close>, as the code has it. Take a call of \<open>SortExec\<close> whose handle, after \<open>Default()\<close>
  has replaced a \<open>nil\<close> one, and whose statement are not \<open>nil\<close>. With an empty
  \<open>keyColumn\<close>, the key column is the primary-key placeholder of the current table when
  the statement has a model, and the column \<open>id\<close> of the current table when it has
  none. With an empty \<open>sortColumn\<close>, the sort column, which is also the column updated,
  is the column \<open>sort\<close> of the current table.
\<close>

theorem SortExec_default_columns:
  assumes "(case tx of None \<Rightarrow> Default Create s | Some b \<Rightarrow> (tx, s)) = (Some a, s')"
    and "Statement (heap (world s') a) = Some st"
  shows "\<exists>c. SortExec Create tx kvs keyColumn sortColumn s = (Inr c, s') \<and> call_tx c = Some a
     \<and> (keyColumn = [] \<longrightarrow>
          hd (Vars (call_where c)) =
            Col \<lparr>Table = clause_CurrentTable,
                 Name = (if Model st = None then ''id'' else clause_PrimaryKey),
                 Alias = [], Raw = False\<rparr>
          \<and> hd (Vars (call_value c)) = hd (Vars (call_where c)))
     \<and> (sortColumn = [] \<longrightarrow>
          call_column c = ''sort''
          \<and> last (Vars (call_value c)) =
              Col \<lparr>Table = clause_CurrentTable, Name = ''sort'', Alias = [], Raw = False\<rparr>)"
proof -
  let ?kc0 = "column keyColumn" and ?sc0 = "column sortColumn"
  let ?kc = "if Name ?kc0 = [] then ?kc0\<lparr>Name := (if Model st \<noteq> None then clause_PrimaryKey else ''id'')\<rparr> else ?kc0"
  let ?sc = "if Name ?sc0 = [] then ?sc0\<lparr>Name := ''sort''\<rparr> else ?sc0"
  let ?c = "\<lparr>call_tx = Some a, call_where = fst (SortPrep kvs ?kc ?sc), call_column = Name ?sc,
            call_value = snd (SortPrep kvs ?kc ?sc)\<rparr>"
  have run: "SortExec Create tx kvs keyColumn sortColumn s = (Inr ?c, s')"
    using assms by (simp add: SortExec_def Let_def split: prod.splits)
  have key: "keyColumn = [] \<Longrightarrow> ?kc = \<lparr>Table = clause_CurrentTable,
                 Name = (if Model st = None then ''id'' else clause_PrimaryKey),
                 Alias = [], Raw = False\<rparr>"
    by (simp add: column_empty)
  have srt: "sortColumn = [] \<Longrightarrow> ?sc = \<lparr>Table = clause_CurrentTable, Name = ''sort'', Alias = [], Raw = False\<rparr>"
    by (simp add: column_empty)
  have "call_tx ?c = Some a" by simp
  moreover have "keyColumn = [] \<longrightarrow>
          hd (Vars (call_where ?c)) =
            Col \<lparr>Table = clause_CurrentTable,
                 Name = (if Model st = None then ''id'' else clause_PrimaryKey),
                 Alias = [], Raw = False\<rparr>
          \<and> hd (Vars (call_value ?c)) = hd (Vars (call_where ?c))"
    using key by (simp add: SortPrep_vars del: if_cancel)
  moreover have "sortColumn = [] \<longrightarrow>
          call_column ?c = ''sort''
          \<and> last (Vars (call_value ?c)) =
              Col \<lparr>Table = clause_CurrentTable, Name = ''sort'', Alias = [], Raw = False\<rparr>"
    using srt by (simp add: SortPrep_vars)
  ultimately show ?thesis using run by blast
qed

theorem SortExec_default_columns_witness:
  "(case Some 1 of None \<Rightarrow> Default Create_unknown (SingleWrap_init test_store)
                 | Some a \<Rightarrow> (Some 1, SingleWrap_init test_store))
     = (Some 1, SingleWrap_init test_store)
   \<and> Statement (heap (world (SingleWrap_init test_store :: (addr option, (string, string) store) single)) 1)
       = Some \<lparr>DB = Some 1, Model = Some ''ZZ''\<rparr>
   \<and> (\<exists>c. SortExec Create_unknown (Some 1) test_sorts [] [] (SingleWrap_init test_store)
              = (Inr c, SingleWrap_init test_store)
          \<and> call_tx c = Some 1
          \<and> hd (Vars (call_where c)) = Col test_kc
          \<and> hd (Vars (call_value c)) = Col test_kc
          \<and> call_column c = ''sort''
          \<and> last (Vars (call_value c)) = Col test_sc)"
proof -
  let ?s = "SingleWrap_init test_store :: (addr option, (string, string) store) single"
  have h1: "(case Some 1 of None \<Rightarrow> Default Create_unknown ?s | Some a \<Rightarrow> (Some 1, ?s)) = (Some 1, ?s)"
    by simp
  have h2: "Statement (heap (world ?s) 1) = Some \<lparr>DB = Some 1, Model = Some ''ZZ''\<rparr>"
    by (simp add: SingleWrap_init_def test_store_def)
  from SortExec_default_columns [OF h1 h2, of test_sorts "[]" "[]"]
  obtain c where c: "SortExec Create_unknown (Some 1) test_sorts [] [] ?s = (Inr c, ?s)"
      "call_tx c = Some 1"
      "hd (Vars (call_where c)) = Col \<lparr>Table = clause_CurrentTable, Name = clause_PrimaryKey, Alias = [], Raw = False\<rparr>"
      "hd (Vars (call_value c)) = hd (Vars (call_where c))"
      "call_column c = ''sort''"
      "last (Vars (call_value c)) = Col \<lparr>Table = clause_CurrentTable, Name = ''sort'', Alias = [], Raw = False\<rparr>"
    by auto
  have k: "\<lparr>Table = clause_CurrentTable, Name = clause_PrimaryKey, Alias = [], Raw = False\<rparr> = test_kc"
    by (simp add: test_kc_def clause_CurrentTable_def clause_PrimaryKey_def)
  have t: "\<lparr>Table = clause_CurrentTable, Name = ''sort'', Alias = [], Raw = False\<rparr> = test_sc"
    by (simp add: test_sc_def clause_CurrentTable_def)
  from c k t have "SortExec Create_unknown (Some 1) test_sorts [] [] ?s = (Inr c, ?s)
          \<and> call_tx c = Some 1
          \<and> hd (Vars (call_where c)) = Col test_kc
          \<and> hd (Vars (call_value c)) = Col test_kc
          \<and> call_column c = ''sort''
          \<and> last (Vars (call_value c)) = Col test_sc"
    by simp
  then have "\<exists>c. SortExec Create_unknown (Some 1) test_sorts [] [] ?s = (Inr c, ?s)
          \<and> call_tx c = Some 1
          \<and> hd (Vars (call_where c)) = Col test_kc
          \<and> hd (Vars (call_value c)) = Col test_kc
          \<and> call_column c = ''sort''
          \<and> last (Vars (call_value c)) = Col test_sc" ..
  with h1 h2 show ?thesis by blast
qed

text \<open>
  The claim as the specification states it fails on a handle whose statement has no
  model: the key column is then \<open>id\<close>, not the primary-key placeholder.
\<close>

theorem SortExec_key_default_counterexample:
  "fst (SortExec Create_unknown (Some 0) test_sorts [] [] (SingleWrap_init test_store)) =
     Inr \<lparr>call_tx = Some 0,
          call_where = \<lparr>SQL = ''? in (?)'',
             Vars = [Col \<lparr>Table = ''~~~ct~~~'', Name = ''id'', Alias = [], Raw = False\<rparr>,
                     Keys [''1'', ''2'', ''3'', ''4'', ''5'']]\<rparr>,
          call_column = ''sort'',
          call_value = \<lparr>SQL = ''(CASE ? WHEN ? THEN ? WHEN ? THEN ? WHEN ? THEN ? WHEN ? THEN ? WHEN ? THEN ? ELSE ? END)'',
             Vars = [Col \<lparr>Table = ''~~~ct~~~'', Name = ''id'', Alias = [], Raw = False\<rparr>,
                     Key ''1'', Val 2, Key ''2'', Val 1, Key ''3'', Val 3,
                     Key ''4'', Val 4, Key ''5'', Val 5, Col test_sc]\<rparr>\<rparr>
   \<and> ''id'' \<noteq> clause_PrimaryKey"
  by (simp add: SortExec_no_model clause_PrimaryKey_def)

subsection \<open>SingleWrap, concurrent callers\<close>

text \<open>
  A caller that runs alone takes at most five actions and ends as the sequential model
  says: the same result, map, invocations and world, and no call left in the group.
\<close>

lemma step_Returned: "callers s ! t = Returned r \<Longrightarrow> step get t s = s"
  by (simp add: step_def)

lemma one_caller_agrees:
  "callers (run get [0, 0, 0, 0, 0] (alone name s)) = [Returned (fst (SingleWrap get name s))]
     \<and> c_ins (run get [0, 0, 0, 0, 0] (alone name s)) = ins (snd (SingleWrap get name s))
     \<and> c_calls (run get [0, 0, 0, 0, 0] (alone name s)) = calls (snd (SingleWrap get name s))
     \<and> c_world (run get [0, 0, 0, 0, 0] (alone name s)) = world (snd (SingleWrap get name s))
     \<and> in_flight (run get [0, 0, 0, 0, 0] (alone name s)) = Map.empty"
proof -
  define key where "key = (if name = [] then DEFAULT else name)"
  define c0 :: "('a, 'b, 'c) conc" where "c0 = alone name s"
  have c0: "callers c0 = [Entered name]" "c_ins c0 = ins s" "in_flight c0 = Map.empty"
    "c_calls c0 = calls s" "c_world c0 = world s"
    by (simp_all add: c0_def alone_def)
  show ?thesis
  proof (cases "ins s key")
    case (Some v)
    have 1: "step get 0 c0 = c0\<lparr>callers := [Returned (Inr v)]\<rparr>"
      using Some c0 by (simp add: step_def key_def [symmetric])
    have 2: "step get 0 (c0\<lparr>callers := [Returned (Inr v)]\<rparr>) = c0\<lparr>callers := [Returned (Inr v)]\<rparr>"
      by (simp add: step_Returned)
    have sw: "SingleWrap get name s = (Inr v, s)"
      using Some by (simp add: SingleWrap_hit key_def)
    show ?thesis
      unfolding c0_def [symmetric] by (simp add: 1 2 sw c0)
  next
    case None
    obtain r w where g: "get key (world s) = (r, w)" by (cases "get key (world s)")
    have 1: "step get 0 c0 = c0\<lparr>callers := [Missed key]\<rparr>"
      using None c0 by (simp add: step_def key_def [symmetric])
    have 2: "step get 0 (c0\<lparr>callers := [Missed key]\<rparr>)
               = c0\<lparr>callers := [Leading key], in_flight := [key \<mapsto> 0]\<rparr>"
      using c0 by (simp add: step_def)
    have 3: "step get 0 (c0\<lparr>callers := [Leading key], in_flight := [key \<mapsto> 0]\<rparr>)
               = c0\<lparr>callers := [Got key r], in_flight := [key \<mapsto> 0],
                     c_calls := calls s @ [key], c_world := w\<rparr>"
      using g c0 by (simp add: step_def)
    show ?thesis
    proof (cases r)
      case (Inl err)
      have 4: "step get 0 (c0\<lparr>callers := [Got key r], in_flight := [key \<mapsto> 0],
                     c_calls := calls s @ [key], c_world := w\<rparr>)
               = c0\<lparr>callers := [Returned (Inl err)], in_flight := Map.empty,
                     c_calls := calls s @ [key], c_world := w, finished := (finished c0)(0 \<mapsto> Inl err)\<rparr>"
        using Inl by (simp add: step_def)
      have 5: "step get 0 (c0\<lparr>callers := [Returned (Inl err)], in_flight := Map.empty,
                     c_calls := calls s @ [key], c_world := w, finished := (finished c0)(0 \<mapsto> Inl err)\<rparr>)
            = c0\<lparr>callers := [Returned (Inl err)], in_flight := Map.empty,
                     c_calls := calls s @ [key], c_world := w, finished := (finished c0)(0 \<mapsto> Inl err)\<rparr>"
        by (simp add: step_Returned)
      have sw: "SingleWrap get name s = (Inl err, s\<lparr>calls := calls s @ [key], world := w\<rparr>)"
        using None g Inl unfolding key_def by (simp add: SingleWrap_miss)
      show ?thesis
        unfolding c0_def [symmetric] by (simp add: 1 2 3 4 5 sw c0)
    next
      case (Inr v)
      have 4: "step get 0 (c0\<lparr>callers := [Got key r], in_flight := [key \<mapsto> 0],
                     c_calls := calls s @ [key], c_world := w\<rparr>)
               = c0\<lparr>callers := [Stored key v], in_flight := [key \<mapsto> 0],
                     c_calls := calls s @ [key], c_world := w, c_ins := (ins s)(key \<mapsto> v)\<rparr>"
        using Inr c0 by (simp add: step_def)
      have 5: "step get 0 (c0\<lparr>callers := [Stored key v], in_flight := [key \<mapsto> 0],
                     c_calls := calls s @ [key], c_world := w, c_ins := (ins s)(key \<mapsto> v)\<rparr>)
            = c0\<lparr>callers := [Returned (Inr v)], in_flight := Map.empty,
                     c_calls := calls s @ [key], c_world := w, c_ins := (ins s)(key \<mapsto> v),
                     finished := (finished c0)(0 \<mapsto> Inr v)\<rparr>"
        by (simp add: step_def)
      have sw: "SingleWrap get name s
                  = (Inr v, s\<lparr>calls := calls s @ [key], world := w, ins := (ins s)(key \<mapsto> v)\<rparr>)"
        using None g Inr unfolding key_def by (simp add: SingleWrap_miss)
      show ?thesis
        unfolding c0_def [symmetric] by (simp add: 1 2 3 4 5 sw c0)
    qed
  qed
qed

text \<open>
  Among concurrent callers an entry, once stored, is never removed. And once a name is
  cached and no caller is left that missed the cache for it and has not yet left \<open>Do\<close>,
  then under every schedule the entry keeps its value and \<open>get\<close> is not invoked for the
  name again, whatever the callers that have not yet looked the name up do.
\<close>

lemma none_past_lookup_update:
  assumes "\<forall>p \<in> set ps. \<not> past_lookup key p" and "\<not> past_lookup key q"
  shows "\<forall>p \<in> set (ps[t := q]). \<not> past_lookup key p"
  using assms set_update_subset_insert [of ps t q] by auto

lemma step_settled:
  assumes ins: "c_ins s key = Some v"
    and quiet: "\<forall>p \<in> set (callers s). \<not> past_lookup key p"
  shows "c_ins (step get t s) key = Some v
     \<and> (\<forall>p \<in> set (callers (step get t s)). \<not> past_lookup key p)
     \<and> count_list (c_calls (step get t s)) key = count_list (c_calls s) key"
proof (cases "t < length (callers s)")
  case False
  with assms show ?thesis by (simp add: step_def)
next
  case True
  then have here: "\<not> past_lookup key (callers s ! t)" using quiet by simp
  note upd = none_past_lookup_update [OF quiet]
  show ?thesis
  proof (cases "callers s ! t")
    case (Entered name)
    show ?thesis
    proof (cases "c_ins s (if name = [] then DEFAULT else name)")
      case None
      with ins have "(if name = [] then DEFAULT else name) \<noteq> key" by auto
      with None True Entered ins upd [of "Missed (if name = [] then DEFAULT else name)" t]
      show ?thesis by (simp add: step_def)
    next
      case (Some u)
      with True Entered ins upd [of "Returned (Inr u)" t]
      show ?thesis by (simp add: step_def)
    qed
  next
    case (Missed name)
    with here have ne: "name \<noteq> key" by simp
    show ?thesis
    proof (cases "in_flight s name")
      case None
      with True Missed ins ne upd [of "Leading name" t] show ?thesis by (simp add: step_def)
    next
      case (Some l)
      with True Missed ins upd [of "Waiting l" t] show ?thesis by (simp add: step_def)
    qed
  next
    case (Leading name)
    with here have ne: "name \<noteq> key" by simp
    obtain r w where g: "get name (c_world s) = (r, w)" by (cases "get name (c_world s)")
    with True Leading ins ne upd [of "Got name r" t] show ?thesis by (simp add: step_def)
  next
    case (Got name r)
    with here have ne: "name \<noteq> key" by simp
    show ?thesis
    proof (cases r)
      case (Inl err)
      with True Got ins upd [of "Returned (Inl err)" t] show ?thesis by (simp add: step_def)
    next
      case (Inr u)
      with True Got ins ne upd [of "Stored name u" t] show ?thesis by (simp add: step_def)
    qed
  next
    case (Stored name u)
    with True ins upd [of "Returned (Inr u)" t] show ?thesis by (simp add: step_def)
  next
    case (Waiting l)
    show ?thesis
    proof (cases "finished s l")
      case None
      with True Waiting assms show ?thesis by (simp add: step_def)
    next
      case (Some r)
      with True Waiting ins upd [of "Returned r" t] show ?thesis by (simp add: step_def)
    qed
  next
    case (Returned r)
    with True assms show ?thesis by (simp add: step_def)
  qed
qed

lemma run_settled:
  assumes "c_ins s key = Some v"
    and "\<forall>p \<in> set (callers s). \<not> past_lookup key p"
  shows "c_ins (run get sched s) key = Some v
     \<and> (\<forall>p \<in> set (callers (run get sched s)). \<not> past_lookup key p)
     \<and> count_list (c_calls (run get sched s)) key = count_list (c_calls s) key"
  using assms
proof (induction sched arbitrary: s)
  case Nil
  then show ?case by simp
next
  case (Cons t sched)
  from step_settled [OF Cons.prems, of get t]
  have 1: "c_ins (step get t s) key = Some v"
    and 2: "\<forall>p \<in> set (callers (step get t s)). \<not> past_lookup key p"
    and 3: "count_list (c_calls (step get t s)) key = count_list (c_calls s) key"
    by simp_all
  from Cons.IH [OF 1 2] 3 show ?case by simp
qed

lemma step_keeps_entries:
  assumes "c_ins s key \<noteq> None"
  shows "c_ins (step get t s) key \<noteq> None"
  using assms
  by (auto simp: step_def Let_def split: pc.splits option.splits sum.splits prod.splits)

lemma run_keeps_entries:
  assumes "c_ins s key \<noteq> None"
  shows "c_ins (run get sched s) key \<noteq> None"
  using assms
proof (induction sched arbitrary: s)
  case Nil
  then show ?case by simp
next
  case (Cons t sched)
  from Cons.prems have "c_ins (step get t s) key \<noteq> None" by (rule step_keeps_entries)
  then have "c_ins (run get sched (step get t s)) key \<noteq> None" by (rule Cons.IH)
  then show ?case by simp
qed

text \<open>
  Two callers ask for the same unseen name. When the second enters \<open>Do\<close> while the call
  of the first is in flight, \<open>get\<close> runs once and both receive its value.
\<close>

lemma SingleWrap_concurrent_joined:
  "callers (run get_fresh [0, 0, 1, 1, 0, 0, 0, 1] (conc_init [''main'', ''main''] 0))
     = [Returned (Inr 0), Returned (Inr 0)]
   \<and> c_calls (run get_fresh [0, 0, 1, 1, 0, 0, 0, 1] (conc_init [''main'', ''main''] 0))
     = [''main'']"
  by (simp add: step_def conc_init_def get_fresh_def)

text \<open>
  \<^bold>\<open>C2.\<close> Two callers ask for the same unseen name, \<open>main\<close>. Both look \<open>ins\<close> up and miss
  (callers 0 and 1); caller 0 enters \<open>Do\<close>, runs \<open>get\<close>, stores the value and leaves \<open>Do\<close>;
  only then caller 1 enters \<open>Do\<close>. No call is in flight any more, so caller 1 runs \<open>get\<close>
  again: \<open>get\<close> has been invoked twice for \<open>main\<close>, the two callers have received
  different values, and the entry of \<open>main\<close> has been replaced.
\<close>

theorem SingleWrap_concurrent_second_get:
  "callers (run get_fresh [0, 1, 0, 0, 0, 0, 1, 1, 1, 1] (conc_init [''main'', ''main''] 0))
     = [Returned (Inr 0), Returned (Inr 1)]
   \<and> c_calls (run get_fresh [0, 1, 0, 0, 0, 0, 1, 1, 1, 1] (conc_init [''main'', ''main''] 0))
     = [''main'', ''main'']
   \<and> c_ins (run get_fresh [0, 1, 0, 0, 0, 0, 1, 1, 1, 1] (conc_init [''main'', ''main''] 0)) ''main''
     = Some 1"
  by (simp add: step_def conc_init_def get_fresh_def)

text \<open>
  \<^bold>\<open>C4.\<close> Four callers ask for \<open>main\<close>. Callers 0 and 1 look \<open>ins\<close> up and miss; caller 0
  enters \<open>Do\<close>, runs \<open>get\<close>, stores the value 0, leaves \<open>Do\<close> and returns 0: a call for
  \<open>main\<close> has succeeded and the entry holds 0. Caller 2 begins only now and returns the
  stored 0. Then caller 1, which had missed before the store, enters \<open>Do\<close>, finds no
  call in flight, runs \<open>get\<close> a second time and stores 1 over the entry. Caller 3
  begins after that and returns 1. So after the first success \<open>get\<close> has been invoked
  again for the name, the entry has been replaced, and two calls that both began after
  the success have returned different values.
\<close>

theorem SingleWrap_concurrent_entry_replaced:
  "callers (run get_fresh [0, 1, 0, 0, 0, 0]
              (conc_init [''main'', ''main'', ''main'', ''main''] 0))
     = [Returned (Inr 0), Missed ''main'', Entered ''main'', Entered ''main'']
   \<and> c_ins (run get_fresh [0, 1, 0, 0, 0, 0]
              (conc_init [''main'', ''main'', ''main'', ''main''] 0)) ''main'' = Some 0
   \<and> callers (run get_fresh [0, 1, 0, 0, 0, 0, 2, 1, 1, 1, 1, 3]
              (conc_init [''main'', ''main'', ''main'', ''main''] 0))
     = [Returned (Inr 0), Returned (Inr 1), Returned (Inr 0), Returned (Inr 1)]
   \<and> c_calls (run get_fresh [0, 1, 0, 0, 0, 0, 2, 1, 1, 1, 1, 3]
              (conc_init [''main'', ''main'', ''main'', ''main''] 0))
     = [''main'', ''main'']
   \<and> c_ins (run get_fresh [0, 1, 0, 0, 0, 0, 2, 1, 1, 1, 1, 3]
              (conc_init [''main'', ''main'', ''main'', ''main''] 0)) ''main'' = Some 1"
proof (intro conjI)
  show "callers (run get_fresh [0, 1, 0, 0, 0, 0]
              (conc_init [''main'', ''main'', ''main'', ''main''] 0))
     = [Returned (Inr 0), Missed ''main'', Entered ''main'', Entered ''main'']"
    by code_simp
  show "c_ins (run get_fresh [0, 1, 0, 0, 0, 0]
              (conc_init [''main'', ''main'', ''main'', ''main''] 0)) ''main'' = Some 0"
    by code_simp
  show "callers (run get_fresh [0, 1, 0, 0, 0, 0, 2, 1, 1, 1, 1, 3]
              (conc_init [''main'', ''main'', ''main'', ''main''] 0))
     = [Returned (Inr 0), Returned (Inr 1), Returned (Inr 0), Returned (Inr 1)]"
    by code_simp
  show "c_calls (run get_fresh [0, 1, 0, 0, 0, 0, 2, 1, 1, 1, 1, 3]
              (conc_init [''main'', ''main'', ''main'', ''main''] 0))
     = [''main'', ''main'']"
    by code_simp
  show "c_ins (run get_fresh [0, 1, 0, 0, 0, 0, 2, 1, 1, 1, 1, 3]
              (conc_init [''main'', ''main'', ''main'', ''main''] 0)) ''main'' = Some 1"
    by code_simp
qed

end
